theory Spec2Isabelle
  imports Complex_Main "HOL-Library.Multiset" "HOL-Library.List_Lexorder" "HOL-Library.Log_Nat"
begin

section \<open>Values of Python and SQLite\<close>

text \<open>
  A Python \<^verbatim>\<open>str\<close> is a sequence of Unicode code points, so text is a list of code
  points; \<open>str\<close> turns an ASCII literal into one. SQLite stores text as UTF-8 and
  compares it byte by byte, which orders texts as their code points do, so the order of
  \<open>pystr\<close> is the order of a TEXT column.
\<close>

type_synonym pystr = "nat list"

definition str :: "string \<Rightarrow> pystr" where
  "str s = map of_char s"

text \<open>
  SQLite's INTEGER holds 64 bits; the \<^verbatim>\<open>sqlite3\<close> module raises
  \<^verbatim>\<open>OverflowError\<close> when a Python \<^verbatim>\<open>int\<close> outside this range is bound to a
  parameter of a statement.
\<close>

definition sqlite_integer :: "int \<Rightarrow> bool" where
  "sqlite_integer n = (- (2 ^ 63) \<le> n \<and> n < 2 ^ 63)"

text \<open>
  A Python \<^verbatim>\<open>float\<close> is an IEEE 754 double: a finite value, an infinity or NaN.
  The two zeros are one value here, as they are for Python's \<^verbatim>\<open>==\<close>. \<open>to_double\<close>
  rounds a rational to the nearest double, ties to the even significand: 53 bits, the
  least exponent \<open>-1074\<close>, and an infinity from \<open>2 ^ 1024\<close> on (the test
  \<open>1024 \<le> ilog2 y\<close>). \<open>ilog2 a\<close> is the integer part of the binary logarithm of a
  positive \<open>a\<close>.
\<close>

datatype pyfloat = Finite rat | PlusInf | MinusInf | NaN

definition pow2 :: "int \<Rightarrow> rat" where
  "pow2 e = (if 0 \<le> e then 2 ^ nat e else 1 / 2 ^ nat (- e))"

definition ilog2 :: "rat \<Rightarrow> int" where
  "ilog2 a = (let (p, q) = quotient_of a; d = bitlen p - bitlen q
              in if pow2 d \<le> a then d else d - 1)"

definition round_half_even :: "rat \<Rightarrow> int" where
  "round_half_even x =
     (let f = \<lfloor>x\<rfloor>; r = x - of_int f
      in if r < 1 / 2 then f else if 1 / 2 < r then f + 1 else if even f then f else f + 1)"

definition to_double :: "rat \<Rightarrow> pyfloat" where
  "to_double x =
     (if x = 0 then Finite 0
      else
        let a = \<bar>x\<bar>;
            u = max (ilog2 a - 52) (- 1074);
            y = of_int (round_half_even (a / pow2 u)) * pow2 u
        in if 1024 \<le> ilog2 y then (if 0 < x then PlusInf else MinusInf)
           else Finite (if 0 < x then y else - y))"

text \<open>
  The operations of the code on floats: \<^verbatim>\<open>*\<close>, \<^verbatim>\<open>+\<close> and \<^verbatim>\<open>/ 100\<close>, each the
  exact result rounded once. None of them raises. An \<^verbatim>\<open>int\<close> that meets a float
  in \<^verbatim>\<open>*\<close> is converted first, and Python raises \<^verbatim>\<open>OverflowError\<close> when it is too
  large for a double.
\<close>

fun fmul :: "pyfloat \<Rightarrow> pyfloat \<Rightarrow> pyfloat" where
  "fmul NaN _ = NaN"
| "fmul _ NaN = NaN"
| "fmul (Finite a) (Finite b) = to_double (a * b)"
| "fmul (Finite a) PlusInf = (if a = 0 then NaN else if 0 < a then PlusInf else MinusInf)"
| "fmul (Finite a) MinusInf = (if a = 0 then NaN else if 0 < a then MinusInf else PlusInf)"
| "fmul PlusInf (Finite b) = (if b = 0 then NaN else if 0 < b then PlusInf else MinusInf)"
| "fmul MinusInf (Finite b) = (if b = 0 then NaN else if 0 < b then MinusInf else PlusInf)"
| "fmul PlusInf PlusInf = PlusInf"
| "fmul PlusInf MinusInf = MinusInf"
| "fmul MinusInf PlusInf = MinusInf"
| "fmul MinusInf MinusInf = PlusInf"

fun fadd :: "pyfloat \<Rightarrow> pyfloat \<Rightarrow> pyfloat" where
  "fadd NaN _ = NaN"
| "fadd _ NaN = NaN"
| "fadd (Finite a) (Finite b) = to_double (a + b)"
| "fadd (Finite a) PlusInf = PlusInf"
| "fadd (Finite a) MinusInf = MinusInf"
| "fadd PlusInf (Finite b) = PlusInf"
| "fadd MinusInf (Finite b) = MinusInf"
| "fadd PlusInf PlusInf = PlusInf"
| "fadd PlusInf MinusInf = NaN"
| "fadd MinusInf PlusInf = NaN"
| "fadd MinusInf MinusInf = MinusInf"

fun div100 :: "pyfloat \<Rightarrow> pyfloat" where
  "div100 (Finite a) = to_double (a / 100)"
| "div100 x = x"

datatype error =
    InsufficientStock int int
  | InsufficientStockFor pystr
  | IntegrityError
  | OverflowError
  | TypeError

definition float_of_int :: "int \<Rightarrow> error + pyfloat" where
  "float_of_int n =
     (case to_double (of_int n) of
        Finite x \<Rightarrow> Inr (Finite x)
      | _ \<Rightarrow> Inl OverflowError)"

text \<open>
  A cell of a REAL column: SQLite stores NaN as NULL, which is \<open>None\<close>, and every
  other double as it is.
\<close>

definition sql_real :: "pyfloat \<Rightarrow> pyfloat option" where
  "sql_real x = (case x of NaN \<Rightarrow> None | _ \<Rightarrow> Some x)"

section \<open>The tables of \<^verbatim>\<open>setup_database\<close>\<close>

text \<open>
  One record per table of \<^verbatim>\<open>src/App.py\<close>, one field per column. A table is the list
  of its rows; the rows of \<^verbatim>\<open>products\<close> stand in ascending \<^verbatim>\<open>id\<close>, the order in
  which SQLite keeps and reads a table whose primary key is an INTEGER. The primary key
  \<^verbatim>\<open>id\<close> is the field \<open>row_id\<close>, since \<open>id\<close> is the identity function of HOL.
\<close>

record product_row =
  row_id :: int
  company_id :: "int option"
  brand :: pystr
  product_name :: pystr
  original_quantity :: int
  quantity :: int
  unit_price :: "pyfloat option"
  cgst :: "pyfloat option"
  sgst :: "pyfloat option"
  cess :: "pyfloat option"
  purchase_date :: pystr
  company_invoice :: "pystr option"
  is_current :: int

record billing_row =
  bill_number :: int
  customer_name :: pystr
  total_amount :: "pyfloat option"
  bill_date :: pystr

record bill_item_row =
  bi_id :: int
  bi_bill_number :: int
  bi_product_name :: pystr
  bi_quantity :: int
  bi_unit_price :: "pyfloat option"

text \<open>
  \<^verbatim>\<open>settings (year INTEGER PRIMARY KEY, last_invoice_number INTEGER)\<close>: the rows as
  pairs \<open>(year, last_invoice_number)\<close>. Of \<^verbatim>\<open>companies\<close> the columns \<open>(id, name)\<close>
  are kept, the ones \<^verbatim>\<open>get_companies\<close> reads and the foreign key of
  \<^verbatim>\<open>products.company_id\<close> refers to.
\<close>

record database =
  companies :: "(int \<times> pystr) list"
  products :: "product_row list"
  billing :: "billing_row list"
  bill_items :: "bill_item_row list"
  settings :: "(int \<times> int) list"

text \<open>
  What \<^verbatim>\<open>datetime.now()\<close> returns at a call: the fields the code reads. The three reads
  of \<^verbatim>\<open>get_invoice_number\<close> are taken at one instant.
\<close>

record clock =
  year :: int
  month :: int
  day :: int

section \<open>Invoice numbers\<close>

text \<open>
  \<^verbatim>\<open>DatabaseHandler.get_invoice_number\<close> (lines 246--267). The SELECT reads the row of
  the current year; without one the INSERT adds \<open>(current_year, 0)\<close>. The UPDATE writes
  the new number into every row of that year. Both writes are committed before the
  function returns.
\<close>

definition update_last_invoice_number :: "int \<Rightarrow> int \<Rightarrow> (int \<times> int) list \<Rightarrow> (int \<times> int) list" where
  "update_last_invoice_number new_invoice_number current_year rows =
     map (\<lambda>(y, n). if y = current_year then (y, new_invoice_number) else (y, n)) rows"

definition get_invoice_number :: "clock \<Rightarrow> database \<Rightarrow> int \<times> database" where
  "get_invoice_number now db =
     (let current_year = year now;
          result = map_of (settings db) current_year;
          db1 = (case result of
                   None \<Rightarrow> db\<lparr>settings := settings db @ [(current_year, 0)]\<rparr>
                 | Some _ \<Rightarrow> db);
          last_invoice_number = (case result of None \<Rightarrow> 0 | Some n \<Rightarrow> n);
          new_invoice_number =
            (if month now = 4 \<and> day now = 1 then 1 else last_invoice_number + 1)
      in (new_invoice_number,
          db1\<lparr>settings := update_last_invoice_number new_invoice_number current_year (settings db1)\<rparr>))"

text \<open>Serialized calls, one after the other, each at its own instant.\<close>

fun sequential_invoice_numbers :: "clock list \<Rightarrow> database \<Rightarrow> int list \<times> database" where
  "sequential_invoice_numbers [] db = ([], db)"
| "sequential_invoice_numbers (now # later) db =
     (let (n, db1) = get_invoice_number now db;
          (ns, db2) = sequential_invoice_numbers later db1
      in (n # ns, db2))"

section \<open>Names\<close>

text \<open>
  The columns \<^verbatim>\<open>brand\<close> and \<^verbatim>\<open>product_name\<close> are declared
  \<^verbatim>\<open>TEXT COLLATE NOCASE\<close>, so \<^verbatim>\<open>WHERE product_name = ?\<close> compares after folding
  the 26 upper-case ASCII letters to lower case, and no other character.
\<close>

definition ascii_lower :: "nat \<Rightarrow> nat" where
  "ascii_lower c = (if 65 \<le> c \<and> c \<le> 90 then c + 32 else c)"

definition ascii_upper :: "nat \<Rightarrow> nat" where
  "ascii_upper c = (if 97 \<le> c \<and> c \<le> 122 then c - 32 else c)"

definition nocase_eq :: "pystr \<Rightarrow> pystr \<Rightarrow> bool" where
  "nocase_eq a b = (map ascii_lower a = map ascii_lower b)"

text \<open>
  \<^verbatim>\<open>to_sentence_case\<close> and \<^verbatim>\<open>format_name\<close> (lines 18--28) call
  \<^verbatim>\<open>str.upper\<close>, \<^verbatim>\<open>str.lower\<close> and \<^verbatim>\<open>str.split\<close> of Python, which follow the
  Unicode tables of the interpreter. The three methods are arguments of the model, as
  the record \<open>py\<close>. \<open>ascii_methods\<close> is what they do on text of ASCII characters:
  \<^verbatim>\<open>upper\<close> and \<^verbatim>\<open>lower\<close> change the 26 letters, and \<^verbatim>\<open>split()\<close> cuts at runs
  of the whitespace characters (codes 9 to 13, 28 to 32).
\<close>

record str_methods =
  str_upper :: "pystr \<Rightarrow> pystr"
  str_lower :: "pystr \<Rightarrow> pystr"
  str_split :: "pystr \<Rightarrow> pystr list"

definition to_sentence_case :: "str_methods \<Rightarrow> pystr \<Rightarrow> pystr" where
  "to_sentence_case py text =
     (case text of [] \<Rightarrow> [] | c # cs \<Rightarrow> str_upper py [c] @ str_lower py cs)"

fun join_words :: "pystr list \<Rightarrow> pystr" where
  "join_words [] = []"
| "join_words [w] = w"
| "join_words (w # ws) = w @ [32] @ join_words ws"

definition format_name :: "str_methods \<Rightarrow> pystr \<Rightarrow> pystr" where
  "format_name py name =
     (if name = [] then name else join_words (map (to_sentence_case py) (str_split py name)))"

definition is_space :: "nat \<Rightarrow> bool" where
  "is_space c = ((9 \<le> c \<and> c \<le> 13) \<or> (28 \<le> c \<and> c \<le> 32))"

fun split_words :: "pystr \<Rightarrow> pystr \<Rightarrow> pystr list" where
  "split_words word [] = (if word = [] then [] else [word])"
| "split_words word (c # cs) =
     (if is_space c then (if word = [] then split_words [] cs else word # split_words [] cs)
      else split_words (word @ [c]) cs)"

definition ascii_methods :: str_methods where
  "ascii_methods =
     \<lparr>str_upper = map ascii_upper, str_lower = map ascii_lower, str_split = split_words []\<rparr>"

section \<open>Batches\<close>

text \<open>
  \<^verbatim>\<open>DatabaseHandler.add_product\<close> (lines 137--147): one INSERT, then a commit. The
  given quantity is written to both \<^verbatim>\<open>original_quantity\<close> and \<^verbatim>\<open>quantity\<close>. The
  function checks none of its arguments. Binding the parameters raises
  \<^verbatim>\<open>OverflowError\<close> for an integer outside SQLite's range, and the schema raises for
  a \<^verbatim>\<open>company_id\<close> that is no row of \<^verbatim>\<open>companies\<close> (foreign keys are switched on
  in \<^verbatim>\<open>__new__\<close>); in both cases nothing is stored. SQLite gives the new row the
  largest \<^verbatim>\<open>id\<close> of the table plus one, and 1 in an empty table. The parameters stand
  in the order of the source; where a name of the source is a column of the record, the
  parameter has a longer name.
\<close>

definition next_rowid :: "int list \<Rightarrow> int" where
  "next_rowid ids = (if ids = [] then 1 else Max (set ids) + 1)"

definition add_product ::
  "str_methods \<Rightarrow> int option \<Rightarrow> pystr \<Rightarrow> pystr \<Rightarrow> int \<Rightarrow> pyfloat \<Rightarrow> pyfloat \<Rightarrow> pyfloat \<Rightarrow> pyfloat
     \<Rightarrow> pystr \<Rightarrow> pystr option \<Rightarrow> database \<Rightarrow> error + database" where
  "add_product py company brand_name name qty price cgst_pct sgst_pct cess_pct date invoice db =
     (if (case company of None \<Rightarrow> False | Some c \<Rightarrow> \<not> sqlite_integer c) \<or> \<not> sqlite_integer qty
      then Inl OverflowError
      else if (case company of None \<Rightarrow> False | Some c \<Rightarrow> c \<notin> set (map fst (companies db)))
      then Inl IntegrityError
      else Inr (db\<lparr>products := products db @
        [\<lparr>row_id = next_rowid (map row_id (products db)), company_id = company,
          brand = format_name py brand_name, product_name = format_name py name,
          original_quantity = qty, quantity = qty, unit_price = sql_real price,
          cgst = sql_real cgst_pct, sgst = sql_real sgst_pct, cess = sql_real cess_pct,
          purchase_date = date, company_invoice = invoice, is_current = 1\<rparr>]\<rparr>))"

section \<open>Allocation\<close>

text \<open>
  The query of \<^verbatim>\<open>update_stock\<close> (lines 201--207) is
  \<^verbatim>\<open>SELECT id, quantity FROM products WHERE product_name = ? AND quantity > 0 ORDER BY purchase_date ASC\<close>.
  The WHERE clause is \<open>matching_batches\<close>. The ORDER BY names one key, and SQL leaves the
  order of rows with equal keys to the engine, so the engine's sort is a parameter
  \<open>srt\<close> of the model, and \<open>order_by_purchase_date srt rows\<close> says that on \<open>rows\<close> it
  did what ORDER BY promises: the same rows, in ascending \<^verbatim>\<open>purchase_date\<close> (TEXT,
  compared byte by byte).
\<close>

type_synonym row_sorter = "product_row list \<Rightarrow> product_row list"

definition matching_batches :: "product_row list \<Rightarrow> pystr \<Rightarrow> product_row list" where
  "matching_batches tbl name =
     filter (\<lambda>p. nocase_eq (product_name p) name \<and> 0 < quantity p) tbl"

definition order_by_purchase_date :: "row_sorter \<Rightarrow> product_row list \<Rightarrow> bool" where
  "order_by_purchase_date srt rows =
     (mset (srt rows) = mset rows \<and> sorted (map purchase_date (srt rows)))"

definition fetch_batches :: "row_sorter \<Rightarrow> product_row list \<Rightarrow> pystr \<Rightarrow> product_row list" where
  "fetch_batches srt tbl name = srt (matching_batches tbl name)"

definition select_batches :: "row_sorter \<Rightarrow> product_row list \<Rightarrow> pystr \<Rightarrow> (int \<times> int) list" where
  "select_batches srt tbl name = map (\<lambda>p. (row_id p, quantity p)) (fetch_batches srt tbl name)"

text \<open>
  The engine the program runs on is SQLite. It has no index on \<^verbatim>\<open>products\<close> but the
  primary key, so it reads the rows in ascending \<^verbatim>\<open>id\<close>, the order of the list, and
  its sorter puts them in the order of the key and keeps rows of equal key in the order
  in which it received them.
\<close>

definition sqlite_order_by :: row_sorter where
  "sqlite_order_by rows = sort_key purchase_date rows"

text \<open>
  \<^verbatim>\<open>UPDATE products SET quantity = quantity - ? WHERE id = ?\<close> with the parameters
  \<open>(deduct, id)\<close>.
\<close>

definition decrement_quantity :: "int \<Rightarrow> int \<Rightarrow> product_row list \<Rightarrow> product_row list" where
  "decrement_quantity deduct bid tbl =
     map (\<lambda>p. if row_id p = bid then p\<lparr>quantity := quantity p - deduct\<rparr> else p) tbl"

text \<open>
  The loop of lines 215--226 over the fetched pairs \<open>(id, quantity)\<close>. It reads the
  fetched rows only, never the table, so it is modelled by the list of UPDATE statements
  it issues, as pairs \<open>(id, deduct)\<close> in the order of issue; \<open>run_updates\<close> executes
  them.
\<close>

fun deduct_loop :: "int \<Rightarrow> (int \<times> int) list \<Rightarrow> (int \<times> int) list" where
  "deduct_loop remaining [] = []"
| "deduct_loop remaining ((bid, bqty) # batches) =
     (if remaining \<le> 0 then []
      else (bid, min remaining bqty) # deduct_loop (remaining - min remaining bqty) batches)"

definition run_updates :: "(int \<times> int) list \<Rightarrow> product_row list \<Rightarrow> product_row list" where
  "run_updates writes tbl = foldl (\<lambda>t (bid, deduct). decrement_quantity deduct bid t) tbl writes"

text \<open>
  \<^verbatim>\<open>DatabaseHandler.update_stock\<close> (lines 195--232). Every method of
  \<^verbatim>\<open>DatabaseHandler\<close> commits before it returns, so \<^verbatim>\<open>BEGIN IMMEDIATE\<close> finds
  no open transaction and starts at the state the caller left committed. On the error
  path the transaction is rolled back, so the database returned is the one given;
  otherwise the updates are committed. The \<^verbatim>\<open>ValueError\<close> carries the two numbers of
  its message, \<open>InsufficientStock available requested\<close>.
\<close>

definition update_stock :: "row_sorter \<Rightarrow> pystr \<Rightarrow> int \<Rightarrow> database \<Rightarrow> (error + unit) \<times> database" where
  "update_stock srt name qty db =
     (let batches = select_batches srt (products db) name;
          total_available = sum_list (map snd batches)
      in if total_available < qty
         then (Inl (InsufficientStock total_available qty), db)
         else (Inr (), db\<lparr>products := run_updates (deduct_loop qty batches) (products db)\<rparr>))"

text \<open>The quantities the statements are about.\<close>

definition available_stock :: "product_row list \<Rightarrow> pystr \<Rightarrow> int" where
  "available_stock tbl name = sum_list (map quantity (matching_batches tbl name))"

definition stock_of :: "product_row list \<Rightarrow> pystr \<Rightarrow> int" where
  "stock_of tbl name =
     sum_list (map quantity (filter (\<lambda>p. nocase_eq (product_name p) name) tbl))"

definition row_quantity :: "product_row list \<Rightarrow> int \<Rightarrow> int option" where
  "row_quantity tbl bid = map_option quantity (find (\<lambda>p. row_id p = bid) tbl)"

section \<open>Billing\<close>

text \<open>
  A line of the cart \<^verbatim>\<open>self.temp_products\<close>, with the five keys the dictionary of
  lines 1373--1379 has. It has no key for CESS.
\<close>

record cart_item =
  item_product_name :: pystr
  item_quantity :: int
  item_unit_price :: pyfloat
  item_cgst :: pyfloat
  item_sgst :: pyfloat






text \<open>
  The total of lines 1538--1545 of \<^verbatim>\<open>generate_bill\<close>: \<^verbatim>\<open>total_amount\<close> starts at
  \<^verbatim>\<open>0.0\<close> and each line adds
  \<^verbatim>\<open>item_value * (1 + (item['cgst'] + item['sgst']) / 100)\<close> to it, in the order of the
  cart. \<^verbatim>\<open>item['quantity'] * item['unit_price']\<close> converts the quantity and may
  raise.
\<close>

definition item_value :: "cart_item \<Rightarrow> error + pyfloat" where
  "item_value item =
     (case float_of_int (item_quantity item) of
        Inl e \<Rightarrow> Inl e
      | Inr q \<Rightarrow> Inr (fmul q (item_unit_price item)))"

fun add_item_totals :: "pyfloat \<Rightarrow> cart_item list \<Rightarrow> error + pyfloat" where
  "add_item_totals amount [] = Inr amount"
| "add_item_totals amount (item # items) =
     (case item_value item of
        Inl e \<Rightarrow> Inl e
      | Inr v \<Rightarrow>
          add_item_totals
            (fadd amount (fmul v (fadd (Finite 1) (div100 (fadd (item_cgst item) (item_sgst item))))))
            items)"

definition calculate_total :: "cart_item list \<Rightarrow> error + pyfloat" where
  "calculate_total temp_products = add_item_totals (Finite 0) temp_products"

text \<open>
  \<^verbatim>\<open>create_bill\<close> (lines 179--185) and \<^verbatim>\<open>add_bill_item\<close> (lines 187--193): one
  INSERT each, committed at once. \<^verbatim>\<open>billing.bill_number\<close> is the primary key, and
  \<^verbatim>\<open>bill_items.bill_number\<close> refers to it; the schema raises on a duplicate and on
  a bill that does not exist, and binding raises for an integer outside SQLite's range.
\<close>

definition create_bill :: "int \<Rightarrow> pystr \<Rightarrow> pyfloat \<Rightarrow> pystr \<Rightarrow> database \<Rightarrow> error + database" where
  "create_bill bill_no customer amount date db =
     (if \<not> sqlite_integer bill_no then Inl OverflowError
      else if bill_no \<in> set (map bill_number (billing db)) then Inl IntegrityError
      else Inr (db\<lparr>billing := billing db @
        [\<lparr>bill_number = bill_no, customer_name = customer, total_amount = sql_real amount,
          bill_date = date\<rparr>]\<rparr>))"

definition add_bill_item :: "int \<Rightarrow> pystr \<Rightarrow> int \<Rightarrow> pyfloat \<Rightarrow> database \<Rightarrow> error + database" where
  "add_bill_item bill_no name qty price db =
     (if \<not> sqlite_integer bill_no \<or> \<not> sqlite_integer qty then Inl OverflowError
      else if bill_no \<notin> set (map bill_number (billing db)) then Inl IntegrityError
      else Inr (db\<lparr>bill_items := bill_items db @
        [\<lparr>bi_id = next_rowid (map bi_id (bill_items db)), bi_bill_number = bill_no,
          bi_product_name = name, bi_quantity = qty, bi_unit_price = sql_real price\<rparr>]\<rparr>))"

text \<open>
  The loop of lines 1558--1592 over the cart. Each line reads the stock, raises when it
  is short, adds the bill item and calls \<open>update_stock\<close>; the database returned with
  an error is the one the last commit left.
\<close>

fun process_items :: "row_sorter \<Rightarrow> int \<Rightarrow> cart_item list \<Rightarrow> database \<Rightarrow> error option \<times> database" where
  "process_items srt invoice_number [] db = (None, db)"
| "process_items srt invoice_number (item # items) db =
     (let total_stock =
            sum_list (map snd (select_batches srt (products db) (item_product_name item)))
      in if total_stock < item_quantity item
         then (Some (InsufficientStockFor (item_product_name item)), db)
         else
           case add_bill_item invoice_number (item_product_name item) (item_quantity item)
                  (item_unit_price item) db of
             Inl e \<Rightarrow> (Some e, db)
           | Inr db1 \<Rightarrow>
               (case update_stock srt (item_product_name item) (item_quantity item) db1 of
                  (Inl e, db2) \<Rightarrow> (Some e, db2)
                | (Inr _, db2) \<Rightarrow> process_items srt invoice_number items db2))"

datatype bill_result = NoItems | NoCustomer | Generated int | Failed error

text \<open>
  \<^verbatim>\<open>StockManagementApp.generate_bill\<close> (lines 1508--1612) with the cart, the selected
  customer, the clock of \<open>get_invoice_number\<close> and the formatted bill date as arguments.
  The logging, the read-only \<^verbatim>\<open>check_current_stock\<close> and the message boxes are left
  out, and so is the clearing of the cart after a success; the outcome says which
  message was shown. The outer \<^verbatim>\<open>except\<close> swallows the exception, so the function
  returns in every case, and the database it leaves is the one of the last commit.
\<close>

definition generate_bill ::
  "row_sorter \<Rightarrow> clock \<Rightarrow> pystr \<Rightarrow> pystr \<Rightarrow> cart_item list \<Rightarrow> database
     \<Rightarrow> bill_result \<times> database" where
  "generate_bill srt now date customer temp_products db =
     (if temp_products = [] then (NoItems, db)
      else if customer = [] then (NoCustomer, db)
      else
        let (invoice_number, db1) = get_invoice_number now db
        in case calculate_total temp_products of
             Inl e \<Rightarrow> (Failed e, db1)
           | Inr amount \<Rightarrow>
               (case create_bill invoice_number customer amount date db1 of
                  Inl e \<Rightarrow> (Failed e, db1)
                | Inr db2 \<Rightarrow>
                    (case process_items srt invoice_number temp_products db2 of
                       (Some e, db3) \<Rightarrow> (Failed e, db3)
                     | (None, db3) \<Rightarrow> (Generated invoice_number, db3))))"

section \<open>Quantities of the statements\<close>

text \<open>
  \<open>stock_writes\<close> names the UPDATE statements a call of \<open>update_stock\<close> issues,
  \<open>taken writes bid\<close> the quantity they take from the batch \<open>bid\<close>, and
  \<open>before_write writes bid tbl\<close> the table at the moment the first statement for the
  batch \<open>bid\<close> is issued.
\<close>

definition stock_writes :: "row_sorter \<Rightarrow> product_row list \<Rightarrow> pystr \<Rightarrow> int \<Rightarrow> (int \<times> int) list" where
  "stock_writes srt tbl name qty = deduct_loop qty (select_batches srt tbl name)"

definition taken :: "(int \<times> int) list \<Rightarrow> int \<Rightarrow> int" where
  "taken writes bid = sum_list (map snd (filter (\<lambda>w. fst w = bid) writes))"

definition before_write :: "(int \<times> int) list \<Rightarrow> int \<Rightarrow> product_row list \<Rightarrow> product_row list" where
  "before_write writes bid tbl = run_updates (takeWhile (\<lambda>w. fst w \<noteq> bid) writes) tbl"

text \<open>The invariant of a batch: \<open>0 \<le> remaining_quantity \<le> original_quantity\<close>.\<close>

definition batch_invariant :: "product_row \<Rightarrow> bool" where
  "batch_invariant p = (0 \<le> quantity p \<and> quantity p \<le> original_quantity p)"


text \<open>
  The quantity the cart lines \<open>items\<close> take from the product \<open>name\<close>: a line of
  quantity zero or less takes nothing.
\<close>

definition sold :: "cart_item list \<Rightarrow> pystr \<Rightarrow> int" where
  "sold items name =
     sum_list (map (\<lambda>item. max 0 (item_quantity item))
       (filter (\<lambda>item. nocase_eq (item_product_name item) name) items))"

section \<open>A shop for the examples\<close>

definition widget_batch :: "int \<Rightarrow> int \<Rightarrow> rat \<Rightarrow> string \<Rightarrow> product_row" where
  "widget_batch bid qty price date =
     \<lparr>row_id = bid, company_id = None, brand = str ''Acme'', product_name = str ''Widget'',
      original_quantity = qty, quantity = qty, unit_price = Some (Finite price),
      cgst = Some (Finite 9), sgst = Some (Finite 9), cess = Some (Finite 2),
      purchase_date = str date, company_invoice = None, is_current = 1\<rparr>"

definition widget_shop :: "product_row list \<Rightarrow> database" where
  "widget_shop tbl = \<lparr>companies = [], products = tbl, billing = [], bill_items = [], settings = []\<rparr>"

definition two_batches :: "product_row list" where
  "two_batches = [widget_batch 1 5 100 ''2024-01-01'', widget_batch 2 5 110 ''2024-01-10'']"


definition negative_batches :: "product_row list" where
  "negative_batches = [widget_batch 1 (- 5) 100 ''2024-01-01'', widget_batch 2 5 110 ''2024-01-10'']"

definition one_batch_shop :: database where
  "one_batch_shop = widget_shop [widget_batch 1 5 100 ''2024-01-01'']"

definition widget_line :: "int \<Rightarrow> cart_item" where
  "widget_line qty = \<lparr>item_product_name = str ''Widget'', item_quantity = qty,
     item_unit_price = Finite 100, item_cgst = Finite 9, item_sgst = Finite 9\<rparr>"

definition march_fifth :: clock where
  "march_fifth = \<lparr>year = 2024, month = 3, day = 5\<rparr>"

section \<open>Properties of the invoice sequencer\<close>

lemma map_of_update_last_invoice_number:
  "map_of (update_last_invoice_number v y rows) y' =
     (if y' = y then map_option (\<lambda>_. v) (map_of rows y) else map_of rows y')"
  by (induction rows) (auto simp: update_last_invoice_number_def)

lemma get_invoice_number_stored:
  "map_of (settings (snd (get_invoice_number now db))) (year now) =
     Some (fst (get_invoice_number now db))"
  by (cases "map_of (settings db) (year now)")
    (simp_all add: get_invoice_number_def Let_def map_of_update_last_invoice_number map_add_def)

lemma get_invoice_number_next:
  assumes "map_of (settings db) (year now) = Some n"
    and "\<not> (month now = 4 \<and> day now = 1)"
  shows "fst (get_invoice_number now db) = n + 1"
  using assms by (auto simp: get_invoice_number_def Let_def)

lemma get_invoice_number_first:
  assumes "map_of (settings db) (year now) = None"
    and "\<not> (month now = 4 \<and> day now = 1)"
  shows "fst (get_invoice_number now db) = 1"
  using assms by (auto simp: get_invoice_number_def Let_def)

lemma sequential_from_counter:
  assumes "map_of (settings db) y = Some n"
    and "\<forall>now \<in> set calls. year now = y \<and> \<not> (month now = 4 \<and> day now = 1)"
  shows "fst (sequential_invoice_numbers calls db) = map (\<lambda>k. n + 1 + int k) [0..<length calls]"
  using assms
proof (induction calls arbitrary: db n)
  case Nil
  then show ?case by simp
next
  case (Cons now later)
  obtain m db1 where g: "get_invoice_number now db = (m, db1)"
    by (cases "get_invoice_number now db")
  have yr: "year now = y" and day: "\<not> (month now = 4 \<and> day now = 1)"
    using Cons.prems(2) by auto
  have m: "m = n + 1"
    using get_invoice_number_next [of db now n] Cons.prems(1) yr day g by simp
  have stored: "map_of (settings db1) y = Some (n + 1)"
    using get_invoice_number_stored [of now db] g yr m by simp
  have rest: "fst (sequential_invoice_numbers later db1) =
      map (\<lambda>k. n + 1 + 1 + int k) [0..<length later]"
    using Cons.IH [OF stored] Cons.prems(2) by simp
  have shift: "map (\<lambda>k. n + 1 + int k) [0..<length (now # later)] =
      (n + 1) # map (\<lambda>k. n + 1 + 1 + int k) [0..<length later]"
    by (simp add: upt_conv_Cons map_Suc_upt [symmetric] del: upt_Suc)
  show ?case
    using g m rest shift by (simp add: split_beta)
qed

text \<open>
  C5. In a calendar year that has no counter row yet, \<open>N\<close> serialized calls of
  \<open>get_invoice_number\<close>, none of them on April 1, return \<open>1, 2, \<dots>, N\<close> in this order.
\<close>

theorem invoice_numbers_gapless:
  assumes "map_of (settings db) y = None"
    and "\<forall>now \<in> set calls. year now = y \<and> \<not> (month now = 4 \<and> day now = 1)"
  shows "fst (sequential_invoice_numbers calls db) = map (\<lambda>k. 1 + int k) [0..<length calls]"
proof (cases calls)
  case Nil
  then show ?thesis by simp
next
  case (Cons now later)
  obtain m db1 where g: "get_invoice_number now db = (m, db1)"
    by (cases "get_invoice_number now db")
  have yr: "year now = y" and day: "\<not> (month now = 4 \<and> day now = 1)"
    using assms(2) Cons by auto
  have m: "m = 1"
    using get_invoice_number_first [of db now] assms(1) yr day g by simp
  have stored: "map_of (settings db1) y = Some 1"
    using get_invoice_number_stored [of now db] g yr m by simp
  have rest: "fst (sequential_invoice_numbers later db1) =
      map (\<lambda>k. 1 + 1 + int k) [0..<length later]"
    using sequential_from_counter [OF stored, of later] assms(2) Cons by simp
  have shift: "map (\<lambda>k. 1 + int k) [0..<length (now # later)] =
      1 # map (\<lambda>k. 1 + 1 + int k) [0..<length later]"
    by (simp add: upt_conv_Cons map_Suc_upt [symmetric] del: upt_Suc)
  show ?thesis
    using Cons g m rest shift by (simp add: split_beta)
qed

theorem invoice_numbers_gapless_witness:
  "fst (sequential_invoice_numbers
      [\<lparr>year = 2024, month = 3, day = 30\<rparr>, \<lparr>year = 2024, month = 3, day = 30\<rparr>,
       \<lparr>year = 2024, month = 4, day = 2\<rparr>]
      \<lparr>companies = [], products = [], billing = [], bill_items = [], settings = [(2023, 57)]\<rparr>) = [1, 2, 3]"
  using invoice_numbers_gapless [of
      "\<lparr>companies = [], products = [], billing = [], bill_items = [], settings = [(2023, 57)]\<rparr>" 2024
      "[\<lparr>year = 2024, month = 3, day = 30\<rparr>, \<lparr>year = 2024, month = 3, day = 30\<rparr>,
        \<lparr>year = 2024, month = 4, day = 2\<rparr>]"]
  by (simp add: upt_conv_Cons)

text \<open>
  C6. A call of \<open>get_invoice_number\<close> on April 1 returns 1 and stores 1 as the
  \<open>last_invoice_number\<close> of the current year, whatever the counter held: every call of
  that day does so.
\<close>

theorem april_first_resets:
  assumes "month now = 4" and "day now = 1"
  shows "fst (get_invoice_number now db) = 1
    \<and> map_of (settings (snd (get_invoice_number now db))) (year now) = Some 1"
proof -
  have "fst (get_invoice_number now db) = 1"
    using assms by (simp add: get_invoice_number_def Let_def)
  then show ?thesis
    using get_invoice_number_stored [of now db] by simp
qed

theorem april_first_resets_witness:
  "fst (get_invoice_number \<lparr>year = 2025, month = 4, day = 1\<rparr>
      \<lparr>companies = [], products = [], billing = [], bill_items = [], settings = [(2025, 41)]\<rparr>) = 1
   \<and> map_of (settings (snd (get_invoice_number \<lparr>year = 2025, month = 4, day = 1\<rparr>
      \<lparr>companies = [], products = [], billing = [], bill_items = [], settings = [(2025, 41)]\<rparr>))) 2025 = Some 1"
  using april_first_resets [of "\<lparr>year = 2025, month = 4, day = 1\<rparr>"
      "\<lparr>companies = [], products = [], billing = [], bill_items = [], settings = [(2025, 41)]\<rparr>"]
  by simp

section \<open>Properties of the allocator\<close>

lemma order_by_set:
  assumes "order_by_purchase_date srt rows"
  shows "set (srt rows) = set rows"
  using assms by (metis order_by_purchase_date_def set_mset_mset)

lemma order_by_sum:
  assumes "order_by_purchase_date srt rows"
  shows "sum_list (map f (srt rows)) = (sum_list (map f rows) :: int)"
proof -
  have "mset (map f (srt rows)) = mset (map f rows)"
    using assms by (simp add: order_by_purchase_date_def)
  then show ?thesis
    by (metis sum_mset_sum_list)
qed

lemma total_available_eq:
  assumes "order_by_purchase_date srt (matching_batches tbl name)"
  shows "sum_list (map snd (select_batches srt tbl name)) = available_stock tbl name"
  using order_by_sum [OF assms, of quantity]
  by (simp add: select_batches_def fetch_batches_def available_stock_def comp_def)

lemma available_stock_nonneg: "0 \<le> available_stock tbl name"
  unfolding available_stock_def matching_batches_def
  by (rule sum_list_nonneg) auto

lemma stock_of_eq_available:
  assumes "\<forall>p \<in> set tbl. 0 \<le> quantity p"
  shows "stock_of tbl name = available_stock tbl name"
  using assms
  by (induction tbl) (auto simp: stock_of_def available_stock_def matching_batches_def)

lemma stock_of_le_available: "stock_of tbl name \<le> available_stock tbl name"
  by (induction tbl) (auto simp: stock_of_def available_stock_def matching_batches_def)

lemma deduct_loop_nonpositive: "remaining \<le> 0 \<Longrightarrow> deduct_loop remaining batches = []"
  by (cases batches) auto

text \<open>
  C2, as the code has it. A request larger than \<open>total_available\<close>, the sum of
  \<open>remaining_quantity\<close> over the batches the query returns, which are the batches of the
  product with \<open>remaining_quantity > 0\<close>, makes \<open>update_stock\<close> fail with the error
  that carries this sum and the requested quantity, and the database it leaves is the
  one it was given: no batch has changed.
\<close>

theorem insufficient_stock_is_noop:
  assumes "order_by_purchase_date srt (matching_batches (products db) name)"
    and "available_stock (products db) name < qty"
  shows "update_stock srt name qty db =
    (Inl (InsufficientStock (available_stock (products db) name) qty), db)"
  using assms(2) total_available_eq [OF assms(1)]
  by (simp add: update_stock_def Let_def)

theorem insufficient_stock_is_noop_witness:
  "order_by_purchase_date (sort_key purchase_date)
      (matching_batches (products (widget_shop two_batches)) (str ''widget''))
   \<and> available_stock (products (widget_shop two_batches)) (str ''widget'') < 11
   \<and> update_stock (sort_key purchase_date) (str ''widget'') 11 (widget_shop two_batches) =
       (Inl (InsufficientStock 10 11), widget_shop two_batches)"
proof -
  have h1: "order_by_purchase_date (sort_key purchase_date)
      (matching_batches (products (widget_shop two_batches)) (str ''widget''))"
    by code_simp
  have h2: "available_stock (products (widget_shop two_batches)) (str ''widget'') < 11"
    by code_simp
  have e: "available_stock (products (widget_shop two_batches)) (str ''widget'') = 10"
    by code_simp
  show ?thesis
    using insufficient_stock_is_noop [OF h1 h2] h1 h2 e by simp
qed

text \<open>
  C2 as stated fails where a batch has a negative quantity, which \<open>add_product\<close>
  stores as it is given: with the batches \<open>-5\<close> and \<open>5\<close> the sum over the batches of
  the product is 0, and a request of 5 is not refused but takes the five pieces of the
  second batch.
\<close>

theorem insufficient_stock_negative_batch_counterexample:
  "add_product ascii_methods None (str ''acme'') (str ''widget'') (- 5) (Finite 100) (Finite 9)
      (Finite 9) (Finite 2) (str ''2024-01-01'') None (widget_shop []) =
     Inr (widget_shop [widget_batch 1 (- 5) 100 ''2024-01-01''])
   \<and> stock_of (products (widget_shop negative_batches)) (str ''Widget'') = 0
   \<and> stock_of (products (widget_shop negative_batches)) (str ''Widget'') < 5
   \<and> update_stock sqlite_order_by (str ''Widget'') 5 (widget_shop negative_batches) =
       (Inr (), widget_shop [widget_batch 1 (- 5) 100 ''2024-01-01'',
          (widget_batch 2 5 110 ''2024-01-10'')\<lparr>quantity := 0\<rparr>])"
  by code_simp

text \<open>
  C10. A request of zero or less passes the check, because \<open>total_available\<close> is never
  negative, issues no UPDATE, and leaves the database as it was.
\<close>

theorem nonpositive_request_is_noop:
  assumes "order_by_purchase_date srt (matching_batches (products db) name)"
    and "qty \<le> 0"
  shows "update_stock srt name qty db = (Inr (), db)"
proof -
  have "\<not> available_stock (products db) name < qty"
    using assms(2) available_stock_nonneg [of "products db" name] by linarith
  then show ?thesis
    using total_available_eq [OF assms(1)] deduct_loop_nonpositive [OF assms(2)]
    by (simp add: update_stock_def Let_def run_updates_def)
qed

theorem nonpositive_request_is_noop_witness:
  "order_by_purchase_date (sort_key purchase_date)
      (matching_batches (products (widget_shop two_batches)) (str ''Widget''))
   \<and> (- 3 :: int) \<le> 0
   \<and> update_stock (sort_key purchase_date) (str ''Widget'') (- 3) (widget_shop two_batches) =
       (Inr (), widget_shop two_batches)"
proof -
  have h1: "order_by_purchase_date (sort_key purchase_date)
      (matching_batches (products (widget_shop two_batches)) (str ''Widget''))"
    by code_simp
  have h2: "(- 3 :: int) \<le> 0"
    by simp
  show ?thesis
    using nonpositive_request_is_noop [OF h1 h2] h1 by simp
qed




lemma taken_Nil: "taken [] bid = 0"
  by (simp add: taken_def)

lemma taken_Cons: "taken ((i, d) # ws) bid = (if i = bid then d else 0) + taken ws bid"
  by (simp add: taken_def)

lemma decrement_quantity_row_id: "map row_id (decrement_quantity d i tbl) = map row_id tbl"
  by (induction tbl) (auto simp: decrement_quantity_def)

lemma run_updates_Nil: "run_updates [] tbl = tbl"
  by (simp add: run_updates_def)

lemma run_updates_Cons:
  "run_updates ((i, d) # ws) tbl = run_updates ws (decrement_quantity d i tbl)"
  by (simp add: run_updates_def)

lemma run_updates_map:
  "run_updates ws tbl = map (\<lambda>p. p\<lparr>quantity := quantity p - taken ws (row_id p)\<rparr>) tbl"
proof (induction ws arbitrary: tbl)
  case Nil
  show ?case by (simp add: run_updates_Nil taken_Nil)
next
  case (Cons w ws)
  obtain i d where w: "w = (i, d)" by (cases w)
  show ?case
    unfolding w run_updates_Cons Cons.IH
    by (simp add: decrement_quantity_def taken_Cons)
qed

lemma deduct_loop_ids: "fst ` set (deduct_loop r bs) \<subseteq> fst ` set bs"
proof (induction bs arbitrary: r)
  case Nil
  show ?case by simp
next
  case (Cons b bs)
  obtain i q where b: "b = (i, q)" by (cases b)
  show ?case
    using Cons.IH [of "r - min r q"] by (auto simp: b)
qed

lemma taken_absent: "bid \<notin> fst ` set ws \<Longrightarrow> taken ws bid = 0"
  by (induction ws) (auto simp: taken_def)

lemma taken_not_fetched: "bid \<notin> fst ` set bs \<Longrightarrow> taken (deduct_loop r bs) bid = 0"
  using deduct_loop_ids [of r bs] by (intro taken_absent) blast

lemma taken_deduct_loop_bounds:
  assumes "distinct (map fst bs)" and "\<forall>b \<in> set bs. 0 < snd b" and "(bid, q) \<in> set bs"
  shows "0 \<le> taken (deduct_loop r bs) bid \<and> taken (deduct_loop r bs) bid \<le> q"
  using assms
proof (induction bs arbitrary: r)
  case Nil
  then show ?case by simp
next
  case (Cons b bs)
  obtain i q' where b: "b = (i, q')" by (cases b)
  have q': "0 < q'" using Cons.prems(2) b by simp
  show ?case
  proof (cases "r \<le> 0")
    case True
    then show ?thesis
      using Cons.prems(2,3) by (auto simp: b taken_Nil intro: less_imp_le)
  next
    case False
    show ?thesis
    proof (cases "i = bid")
      case True
      have "bid \<notin> fst ` set bs" using Cons.prems(1) b True by auto
      then have rest: "taken (deduct_loop (r - min r q') bs) bid = 0"
        by (rule taken_not_fetched)
      have "q = q'"
        using Cons.prems(1,3) b True by (auto simp: image_iff)
      then show ?thesis
        using False True q' rest by (simp add: b taken_Cons)
    next
      case neq: False
      have "(bid, q) \<in> set bs" using Cons.prems(3) b neq by auto
      then show ?thesis
        using Cons.IH [of "r - min r q'"] Cons.prems(1,2) False neq
        by (simp add: b taken_Cons)
    qed
  qed
qed

lemma sum_deduct_loop:
  assumes "\<forall>b \<in> set bs. 0 < snd b" and "0 \<le> r" and "r \<le> sum_list (map snd bs)"
  shows "sum_list (map snd (deduct_loop r bs)) = r"
  using assms
proof (induction bs arbitrary: r)
  case Nil
  then show ?case by simp
next
  case (Cons b bs)
  obtain i q where b: "b = (i, q)" by (cases b)
  have pos: "0 \<le> sum_list (map snd bs)"
    using Cons.prems(1) by (intro sum_list_nonneg) (auto intro: less_imp_le)
  show ?case
  proof (cases "r \<le> 0")
    case True
    then show ?thesis using Cons.prems(2) by (simp add: b)
  next
    case False
    have "sum_list (map snd (deduct_loop (r - min r q) bs)) = r - min r q"
      using Cons.prems pos by (intro Cons.IH) (auto simp: b min_def)
    then show ?thesis using False by (simp add: b)
  qed
qed

lemma sum_indicator_row:
  assumes "distinct (map row_id tbl)" and "p0 \<in> set tbl"
  shows "(\<Sum>p\<leftarrow>tbl. if row_id p0 = row_id p then d else 0) = (d :: int)"
  using assms
proof (induction tbl)
  case Nil
  then show ?case by simp
next
  case (Cons p tbl)
  show ?case
  proof (cases "p0 = p")
    case True
    have "\<forall>p' \<in> set tbl. row_id p \<noteq> row_id p'" using Cons.prems(1) by auto
    then have "(\<Sum>p'\<leftarrow>tbl. if row_id p = row_id p' then d else 0) = 0"
      by (induction tbl) auto
    then show ?thesis using True by simp
  next
    case False
    then have "p0 \<in> set tbl" using Cons.prems(2) by simp
    moreover have "row_id p \<notin> row_id ` set tbl" using Cons.prems(1) by simp
    then have "row_id p0 \<noteq> row_id p" using \<open>p0 \<in> set tbl\<close> by (metis imageI)
    ultimately show ?thesis using Cons by simp
  qed
qed

lemma sum_taken_table:
  assumes "distinct (map row_id tbl)" and "fst ` set ws \<subseteq> row_id ` set tbl"
  shows "(\<Sum>p\<leftarrow>tbl. taken ws (row_id p)) = sum_list (map snd ws)"
  using assms(2)
proof (induction ws)
  case Nil
  show ?case by (simp add: taken_Nil)
next
  case (Cons w ws)
  obtain i d where w: "w = (i, d)" by (cases w)
  obtain p0 where p0: "p0 \<in> set tbl" "row_id p0 = i"
    using Cons.prems w by auto
  have "(\<Sum>p\<leftarrow>tbl. taken (w # ws) (row_id p)) =
      (\<Sum>p\<leftarrow>tbl. if row_id p0 = row_id p then d else 0) + (\<Sum>p\<leftarrow>tbl. taken ws (row_id p))"
    by (simp add: w taken_Cons p0(2) sum_list_addf)
  then show ?case
    using sum_indicator_row [OF assms(1) p0(1), of d] Cons by (simp add: w)
qed

lemma update_stock_ok:
  assumes "order_by_purchase_date srt (matching_batches (products db) name)"
    and "qty \<le> available_stock (products db) name"
  shows "update_stock srt name qty db =
    (Inr (), db\<lparr>products := run_updates (stock_writes srt (products db) name qty) (products db)\<rparr>)"
  using assms(2) total_available_eq [OF assms(1)]
  by (simp add: update_stock_def Let_def stock_writes_def)

lemma fetch_batches_set:
  assumes "order_by_purchase_date srt (matching_batches tbl name)"
  shows "set (fetch_batches srt tbl name) =
    {p \<in> set tbl. nocase_eq (product_name p) name \<and> 0 < quantity p}"
  using order_by_set [OF assms] by (auto simp: fetch_batches_def matching_batches_def)

lemma fetch_batches_distinct:
  assumes "order_by_purchase_date srt (matching_batches tbl name)"
    and "distinct (map row_id tbl)"
  shows "distinct (map row_id (fetch_batches srt tbl name))"
proof -
  have "mset (map row_id (fetch_batches srt tbl name)) =
      mset (map row_id (matching_batches tbl name))"
    using assms(1) by (simp add: order_by_purchase_date_def fetch_batches_def)
  moreover have "distinct (map row_id (matching_batches tbl name))"
    using assms(2) unfolding matching_batches_def by (rule distinct_map_filter)
  ultimately show ?thesis
    by (metis mset_eq_imp_distinct_iff)
qed

lemma select_batches_fst: "map fst (select_batches srt tbl name) = map row_id (fetch_batches srt tbl name)"
  by (simp add: select_batches_def comp_def)

lemma select_batches_positive:
  assumes "order_by_purchase_date srt (matching_batches tbl name)"
  shows "\<forall>b \<in> set (select_batches srt tbl name). 0 < snd b"
  using fetch_batches_set [OF assms] by (auto simp: select_batches_def)

lemma same_id_same_row:
  assumes "distinct (map row_id tbl)" and "p \<in> set tbl" and "p' \<in> set tbl"
    and "row_id p = row_id p'"
  shows "p = p'"
  using assms by (meson distinct_map inj_onD)

lemma taken_row_bounds:
  assumes ord: "order_by_purchase_date srt (matching_batches tbl name)"
    and ids: "distinct (map row_id tbl)"
    and p: "p \<in> set tbl"
  shows "0 \<le> taken (stock_writes srt tbl name qty) (row_id p)
    \<and> taken (stock_writes srt tbl name qty) (row_id p) \<le>
        (if nocase_eq (product_name p) name \<and> 0 < quantity p then quantity p else 0)"
proof (cases "p \<in> set (fetch_batches srt tbl name)")
  case True
  then have mem: "(row_id p, quantity p) \<in> set (select_batches srt tbl name)"
    by (auto simp: select_batches_def)
  have d: "distinct (map fst (select_batches srt tbl name))"
    using fetch_batches_distinct [OF ord ids] by (simp add: select_batches_fst)
  have "nocase_eq (product_name p) name \<and> 0 < quantity p"
    using True fetch_batches_set [OF ord] by auto
  then show ?thesis
    using taken_deduct_loop_bounds [OF d select_batches_positive [OF ord] mem, of qty]
    by (simp add: stock_writes_def)
next
  case False
  have "row_id p \<notin> fst ` set (select_batches srt tbl name)"
  proof
    assume "row_id p \<in> fst ` set (select_batches srt tbl name)"
    then obtain p' where p': "p' \<in> set (fetch_batches srt tbl name)" "row_id p' = row_id p"
      by (auto simp: select_batches_def)
    then have "p' \<in> set tbl" using fetch_batches_set [OF ord] by auto
    then have "p' = p" using same_id_same_row [OF ids _ p] p'(2) by simp
    then show False using False p'(1) by simp
  qed
  then have "taken (stock_writes srt tbl name qty) (row_id p) = 0"
    unfolding stock_writes_def by (rule taken_not_fetched)
  then show ?thesis by simp
qed

lemma stock_writes_ids:
  assumes "order_by_purchase_date srt (matching_batches tbl name)"
  shows "fst ` set (stock_writes srt tbl name qty) \<subseteq> row_id ` set tbl"
proof -
  have "fst ` set (select_batches srt tbl name) \<subseteq> row_id ` set tbl"
    using fetch_batches_set [OF assms] by (auto simp: select_batches_def)
  then show ?thesis
    using deduct_loop_ids [of qty "select_batches srt tbl name"]
    unfolding stock_writes_def by blast
qed

lemma sum_stock_writes:
  assumes "order_by_purchase_date srt (matching_batches tbl name)"
    and "0 \<le> qty" and "qty \<le> available_stock tbl name"
  shows "sum_list (map snd (stock_writes srt tbl name qty)) = qty"
  unfolding stock_writes_def
  using assms(2,3) total_available_eq [OF assms(1)]
  by (intro sum_deduct_loop select_batches_positive [OF assms(1)]) simp_all

lemma available_stock_sum:
  "available_stock tbl name =
    (\<Sum>p\<leftarrow>tbl. if nocase_eq (product_name p) name \<and> 0 < quantity p then quantity p else 0)"
  by (induction tbl) (auto simp: available_stock_def matching_batches_def)

lemma stock_of_sum:
  "stock_of tbl name = (\<Sum>p\<leftarrow>tbl. if nocase_eq (product_name p) name then quantity p else 0)"
  by (induction tbl) (auto simp: stock_of_def)

lemma sum_list_cong_set: "(\<And>x. x \<in> set xs \<Longrightarrow> f x = g x) \<Longrightarrow> sum_list (map f xs) = sum_list (map g xs)"
  by (induction xs) auto

lemma available_stock_after:
  assumes ord: "order_by_purchase_date srt (matching_batches tbl name)"
    and ids: "distinct (map row_id tbl)"
    and "0 \<le> qty" and "qty \<le> available_stock tbl name"
  shows "available_stock (run_updates (stock_writes srt tbl name qty) tbl) name =
    available_stock tbl name - qty"
proof -
  let ?ws = "stock_writes srt tbl name qty"
  let ?h = "\<lambda>p. if nocase_eq (product_name p) name \<and> 0 < quantity p then quantity p else 0"
  have "available_stock (run_updates ?ws tbl) name =
      (\<Sum>p\<leftarrow>tbl. ?h (p\<lparr>quantity := quantity p - taken ?ws (row_id p)\<rparr>))"
    by (simp add: available_stock_sum run_updates_map comp_def)
  also have "\<dots> = (\<Sum>p\<leftarrow>tbl. ?h p - taken ?ws (row_id p))"
  proof (rule sum_list_cong_set)
    fix p assume "p \<in> set tbl"
    then show "?h (p\<lparr>quantity := quantity p - taken ?ws (row_id p)\<rparr>) = ?h p - taken ?ws (row_id p)"
      using taken_row_bounds [OF ord ids, of p qty] by (auto split: if_splits)
  qed
  also have "\<dots> = (\<Sum>p\<leftarrow>tbl. ?h p) - (\<Sum>p\<leftarrow>tbl. taken ?ws (row_id p))"
    by (simp add: sum_list_subtractf)
  also have "\<dots> = available_stock tbl name - qty"
    using sum_taken_table [OF ids stock_writes_ids [OF ord], of qty] sum_stock_writes [OF ord assms(3,4)]
    by (simp add: available_stock_sum)
  finally show ?thesis .
qed

lemma stock_of_after:
  assumes ord: "order_by_purchase_date srt (matching_batches tbl name)"
    and ids: "distinct (map row_id tbl)"
    and "0 \<le> qty" and "qty \<le> available_stock tbl name"
  shows "stock_of (run_updates (stock_writes srt tbl name qty) tbl) name = stock_of tbl name - qty"
proof -
  let ?ws = "stock_writes srt tbl name qty"
  let ?h = "\<lambda>p. if nocase_eq (product_name p) name then quantity p else 0"
  have "stock_of (run_updates ?ws tbl) name =
      (\<Sum>p\<leftarrow>tbl. ?h (p\<lparr>quantity := quantity p - taken ?ws (row_id p)\<rparr>))"
    by (simp add: stock_of_sum run_updates_map comp_def)
  also have "\<dots> = (\<Sum>p\<leftarrow>tbl. ?h p - taken ?ws (row_id p))"
  proof (rule sum_list_cong_set)
    fix p assume "p \<in> set tbl"
    then show "?h (p\<lparr>quantity := quantity p - taken ?ws (row_id p)\<rparr>) = ?h p - taken ?ws (row_id p)"
      using taken_row_bounds [OF ord ids, of p qty] by (auto split: if_splits)
  qed
  also have "\<dots> = (\<Sum>p\<leftarrow>tbl. ?h p) - (\<Sum>p\<leftarrow>tbl. taken ?ws (row_id p))"
    by (simp add: sum_list_subtractf)
  also have "\<dots> = stock_of tbl name - qty"
    using sum_taken_table [OF ids stock_writes_ids [OF ord], of qty] sum_stock_writes [OF ord assms(3,4)]
    by (simp add: stock_of_sum)
  finally show ?thesis .
qed

lemma deduct_loop_nth:
  assumes "k < length (deduct_loop r bs)"
  shows "k < length bs \<and> deduct_loop r bs ! k =
    (fst (bs ! k), min (r - sum_list (map snd (take k (deduct_loop r bs)))) (snd (bs ! k)))"
  using assms
proof (induction bs arbitrary: r k)
  case Nil
  then show ?case by simp
next
  case (Cons b bs)
  obtain i q where b: "b = (i, q)" by (cases b)
  have pos: "\<not> r \<le> 0" using Cons.prems by (auto simp: b split: if_splits)
  show ?case
  proof (cases k)
    case 0
    then show ?thesis using pos by (simp add: b)
  next
    case (Suc k')
    then have "k' < length (deduct_loop (r - min r q) bs)"
      using Cons.prems pos by (simp add: b)
    from Cons.IH [OF this] show ?thesis
      using pos Suc by (simp add: b algebra_simps)
  qed
qed

lemma deduct_loop_full:
  assumes "Suc k < length (deduct_loop r bs)"
  shows "snd (deduct_loop r bs ! k) = snd (bs ! k)"
  using assms
proof (induction bs arbitrary: r k)
  case Nil
  then show ?case by simp
next
  case (Cons b bs)
  obtain i q where b: "b = (i, q)" by (cases b)
  have pos: "\<not> r \<le> 0" using Cons.prems by (auto simp: b split: if_splits)
  have len: "Suc k < Suc (length (deduct_loop (r - min r q) bs))"
    using Cons.prems pos by (simp add: b)
  then have "deduct_loop (r - min r q) bs \<noteq> []" by auto
  then have more: "\<not> r - min r q \<le> 0"
    using deduct_loop_nonpositive [of "r - min r q" bs] by blast
  show ?case
  proof (cases k)
    case 0
    then show ?thesis using pos more by (simp add: b min_def split: if_splits)
  next
    case (Suc k')
    then have "Suc k' < length (deduct_loop (r - min r q) bs)"
      using len by simp
    from Cons.IH [OF this] show ?thesis
      using pos Suc by (simp add: b)
  qed
qed

lemma deduct_loop_fst:
  "map fst (deduct_loop r bs) = take (length (deduct_loop r bs)) (map fst bs)"
proof (rule nth_equalityI)
  have "length (deduct_loop r bs) \<le> length bs"
    using deduct_loop_nth [of _ r bs]
    by (metis le_less_linear less_irrefl_nat order.strict_trans1 not_less) 
  then show "length (map fst (deduct_loop r bs)) =
      length (take (length (deduct_loop r bs)) (map fst bs))"
    by simp
next
  fix k assume "k < length (map fst (deduct_loop r bs))"
  then have k: "k < length (deduct_loop r bs)" by simp
  from deduct_loop_nth [OF k] k
  show "map fst (deduct_loop r bs) ! k = take (length (deduct_loop r bs)) (map fst bs) ! k"
    by simp
qed

lemma taken_distinct_nth:
  assumes "distinct (map fst ws)" and "k < length ws"
  shows "taken ws (fst (ws ! k)) = snd (ws ! k)"
  using assms
proof (induction ws arbitrary: k)
  case Nil
  then show ?case by simp
next
  case (Cons w ws)
  obtain i d where w: "w = (i, d)" by (cases w)
  have notin: "i \<notin> fst ` set ws" using Cons.prems(1) w by simp
  show ?case
  proof (cases k)
    case 0
    then show ?thesis using taken_absent [OF notin] by (simp add: w taken_Cons)
  next
    case (Suc k')
    then have k': "k' < length ws" using Cons.prems(2) by simp
    then have "fst (ws ! k') \<in> fst ` set ws" by simp
    then have "fst (ws ! k') \<noteq> i" using notin by metis
    then show ?thesis
      using Cons.IH [OF _ k'] Cons.prems(1) Suc by (simp add: w taken_Cons)
  qed
qed

lemma row_quantity_map:
  "row_quantity (map (\<lambda>p. p\<lparr>quantity := quantity p - f (row_id p)\<rparr>) tbl) bid =
     map_option (\<lambda>q. q - f bid) (row_quantity tbl bid)"
  by (induction tbl) (auto simp: row_quantity_def)

lemma row_quantity_run_updates:
  "row_quantity (run_updates ws tbl) bid = map_option (\<lambda>q. q - taken ws bid) (row_quantity tbl bid)"
  unfolding run_updates_map by (rule row_quantity_map)

lemma row_quantity_member:
  assumes "distinct (map row_id tbl)" and "p \<in> set tbl"
  shows "row_quantity tbl (row_id p) = Some (quantity p)"
  using assms
proof (induction tbl)
  case Nil
  then show ?case by simp
next
  case (Cons p' tbl)
  show ?case
  proof (cases "p = p'")
    case True
    then show ?thesis by (simp add: row_quantity_def)
  next
    case False
    then have mem: "p \<in> set tbl" using Cons.prems(2) by simp
    have "row_id p' \<notin> row_id ` set tbl" using Cons.prems(1) by simp
    then have "row_id p' \<noteq> row_id p" using mem by (metis imageI)
    then show ?thesis
      using Cons.IH [OF _ mem] Cons.prems(1) by (simp add: row_quantity_def)
  qed
qed

lemma order_by_sort_key: "order_by_purchase_date (sort_key purchase_date) rows"
  by (simp add: order_by_purchase_date_def)

lemma order_by_sqlite: "order_by_purchase_date sqlite_order_by rows"
  by (simp add: order_by_purchase_date_def sqlite_order_by_def)



lemma next_rowid_above: "i \<in> set ids \<Longrightarrow> i < next_rowid ids"
proof -
  assume i: "i \<in> set ids"
  then have "i \<le> Max (set ids)" by simp
  then show ?thesis using i by (auto simp: next_rowid_def)
qed

lemma add_product_keeps_id_order:
  assumes "sorted_wrt (<) (map row_id (products db))"
    and "add_product py company brand_name name qty price cgst_pct sgst_pct cess_pct date invoice db
      = Inr db'"
  shows "sorted_wrt (<) (map row_id (products db'))"
  using assms next_rowid_above [of _ "map row_id (products db)"]
  by (auto simp: add_product_def sorted_wrt_append split: if_splits)



lemma stock_writes_nth:
  assumes "k < length (stock_writes srt tbl name qty)"
  shows "k < length (fetch_batches srt tbl name) \<and>
    stock_writes srt tbl name qty ! k =
      (row_id (fetch_batches srt tbl name ! k),
       min (qty - sum_list (map snd (take k (stock_writes srt tbl name qty))))
         (quantity (fetch_batches srt tbl name ! k)))"
proof -
  from deduct_loop_nth [OF assms [unfolded stock_writes_def]]
  have k: "k < length (fetch_batches srt tbl name)"
    and eq: "stock_writes srt tbl name qty ! k =
      (fst (select_batches srt tbl name ! k),
       min (qty - sum_list (map snd (take k (stock_writes srt tbl name qty))))
         (snd (select_batches srt tbl name ! k)))"
    by (simp_all add: stock_writes_def select_batches_def)
  show ?thesis
    using k eq by (simp add: select_batches_def)
qed

lemma stock_writes_distinct:
  assumes "order_by_purchase_date srt (matching_batches tbl name)"
    and "distinct (map row_id tbl)"
  shows "distinct (map fst (stock_writes srt tbl name qty))"
  unfolding stock_writes_def deduct_loop_fst [of qty "select_batches srt tbl name"]
  using fetch_batches_distinct [OF assms] by (simp add: select_batches_fst)

lemma oldest_first:
  assumes ord: "order_by_purchase_date srt (matching_batches tbl name)"
    and ids: "distinct (map row_id tbl)"
    and A: "A \<in> set tbl" "row_id A \<in> fst ` set (stock_writes srt tbl name qty)"
    and B: "B \<in> set tbl" "row_id B \<in> fst ` set (stock_writes srt tbl name qty)"
    and older: "purchase_date A < purchase_date B"
  shows "row_quantity (before_write (stock_writes srt tbl name qty) (row_id B) tbl) (row_id A) = Some 0"
proof -
  let ?ws = "stock_writes srt tbl name qty"
  let ?rows = "fetch_batches srt tbl name"
  have rows_tbl: "set ?rows \<subseteq> set tbl"
    using fetch_batches_set [OF ord] by auto
  have dist: "distinct (map fst ?ws)"
    by (rule stock_writes_distinct [OF ord ids])
  have sorted: "sorted (map purchase_date ?rows)"
    using ord by (simp add: order_by_purchase_date_def fetch_batches_def)
  obtain i where i: "i < length ?ws" "fst (?ws ! i) = row_id A"
    using A(2) by (auto simp: in_set_conv_nth)
  obtain j where j: "j < length ?ws" "fst (?ws ! j) = row_id B"
    using B(2) by (auto simp: in_set_conv_nth)
  have ri: "i < length ?rows" "fst (?ws ! i) = row_id (?rows ! i)"
    using stock_writes_nth [OF i(1)] by simp_all
  have rj: "j < length ?rows" "fst (?ws ! j) = row_id (?rows ! j)"
    using stock_writes_nth [OF j(1)] by simp_all
  have "?rows ! i \<in> set tbl"
    using rows_tbl nth_mem [OF ri(1)] by blast
  then have rowA: "?rows ! i = A"
    using ri(2) i(2) by (intro same_id_same_row [OF ids _ A(1)]) simp_all
  have "?rows ! j \<in> set tbl"
    using rows_tbl nth_mem [OF rj(1)] by blast
  then have rowB: "?rows ! j = B"
    using rj(2) j(2) by (intro same_id_same_row [OF ids _ B(1)]) simp_all
  have ij: "i < j"
  proof (rule ccontr)
    assume "\<not> i < j"
    then have "j \<le> i" by simp
    then have "map purchase_date ?rows ! j \<le> map purchase_date ?rows ! i"
      using sorted ri(1) by (intro sorted_nth_mono) simp_all
    then show False
      using older rowA rowB ri(1) rj(1) by simp
  qed
  have prefix: "takeWhile (\<lambda>w. fst w \<noteq> row_id B) ?ws = take j ?ws"
  proof (rule takeWhile_eq_take_P_nth)
    fix k assume "k < j" "k < length ?ws"
    then have "fst (?ws ! k) \<noteq> fst (?ws ! j)"
      using nth_eq_iff_index_eq [OF dist, of k j] j(1) by simp
    then show "fst (?ws ! k) \<noteq> row_id B"
      using j by simp
  next
    show "\<not> fst (?ws ! j) \<noteq> row_id B" using j(2) by simp
  qed
  have "taken (take j ?ws) (fst (take j ?ws ! i)) = snd (take j ?ws ! i)"
    using dist ij j(1) by (intro taken_distinct_nth) (simp_all add: take_map [symmetric])
  then have "taken (take j ?ws) (row_id A) = snd (?ws ! i)"
    using ij i(2) by simp
  also have "\<dots> = snd (select_batches srt tbl name ! i)"
    using deduct_loop_full [of i qty "select_batches srt tbl name"] ij j(1)
    by (simp add: stock_writes_def)
  also have "\<dots> = quantity A"
    using ri(1) rowA by (simp add: select_batches_def)
  finally have "taken (take j ?ws) (row_id A) = quantity A" .
  then show ?thesis
    using row_quantity_member [OF ids A(1)]
    by (simp add: before_write_def prefix row_quantity_run_updates)
qed

lemma update_stock_products:
  assumes "order_by_purchase_date srt (matching_batches (products db) name)"
  shows "products (snd (update_stock srt name qty db)) =
    (if available_stock (products db) name < qty then products db
     else run_updates (stock_writes srt (products db) name qty) (products db))"
  using total_available_eq [OF assms]
  by (simp add: update_stock_def Let_def stock_writes_def)

lemma update_stock_rows:
  assumes ord: "order_by_purchase_date srt (matching_batches (products db) name)"
    and ids: "distinct (map row_id (products db))"
    and k: "k < length (products db)"
  shows "row_id (products (snd (update_stock srt name qty db)) ! k) = row_id (products db ! k)
    \<and> original_quantity (products (snd (update_stock srt name qty db)) ! k) =
        original_quantity (products db ! k)
    \<and> quantity (products (snd (update_stock srt name qty db)) ! k) \<le> quantity (products db ! k)
    \<and> (0 \<le> quantity (products db ! k) \<longrightarrow>
        0 \<le> quantity (products (snd (update_stock srt name qty db)) ! k))"
proof (cases "available_stock (products db) name < qty")
  case True
  then show ?thesis by (simp add: update_stock_products [OF ord])
next
  case False
  have "products db ! k \<in> set (products db)" using k by simp
  from taken_row_bounds [OF ord ids this, of qty] show ?thesis
    using False k by (simp add: update_stock_products [OF ord] run_updates_map split: if_splits)
qed

text \<open>
  C1, for a request that is not negative. When \<open>0 \<le> requested\<close> and \<open>requested\<close> is
  at most \<open>total_available\<close>, \<open>update_stock\<close> succeeds and commits the UPDATE
  statements of \<open>stock_writes\<close>; the sum of \<open>remaining_quantity\<close> over the batches of the
  product is lower by exactly \<open>requested\<close> (the sum over the batches with stock left, and
  the sum over all of them); the \<open>k\<close>-th statement takes from the \<open>k\<close>-th batch of the
  query the minimum of what is still needed and what the batch holds; and of two touched
  batches \<open>A\<close> older than \<open>B\<close>, \<open>A\<close> stands at 0 when the statement for \<open>B\<close> is issued.
\<close>

theorem update_stock_fifo:
  assumes ord: "order_by_purchase_date srt (matching_batches (products db) name)"
    and ids: "distinct (map row_id (products db))"
    and nonneg: "0 \<le> qty"
    and enough: "qty \<le> available_stock (products db) name"
  shows "fst (update_stock srt name qty db) = Inr ()
    \<and> products (snd (update_stock srt name qty db)) =
        run_updates (stock_writes srt (products db) name qty) (products db)
    \<and> available_stock (products (snd (update_stock srt name qty db))) name =
        available_stock (products db) name - qty
    \<and> stock_of (products (snd (update_stock srt name qty db))) name =
        stock_of (products db) name - qty
    \<and> (\<forall>k < length (stock_writes srt (products db) name qty).
          stock_writes srt (products db) name qty ! k =
            (row_id (fetch_batches srt (products db) name ! k),
             min (qty - sum_list (map snd (take k (stock_writes srt (products db) name qty))))
               (quantity (fetch_batches srt (products db) name ! k))))
    \<and> (\<forall>A \<in> set (products db). \<forall>B \<in> set (products db).
          row_id A \<in> fst ` set (stock_writes srt (products db) name qty) \<longrightarrow>
          row_id B \<in> fst ` set (stock_writes srt (products db) name qty) \<longrightarrow>
          purchase_date A < purchase_date B \<longrightarrow>
          row_quantity (before_write (stock_writes srt (products db) name qty) (row_id B)
            (products db)) (row_id A) = Some 0)"
proof -
  have run: "update_stock srt name qty db =
      (Inr (), db\<lparr>products := run_updates (stock_writes srt (products db) name qty) (products db)\<rparr>)"
    by (rule update_stock_ok [OF ord enough])
  have ok: "fst (update_stock srt name qty db) = Inr ()"
    by (simp add: run)
  have tbl: "products (snd (update_stock srt name qty db)) =
      run_updates (stock_writes srt (products db) name qty) (products db)"
    by (simp add: run)
  have avail: "available_stock (products (snd (update_stock srt name qty db))) name =
      available_stock (products db) name - qty"
    unfolding tbl by (rule available_stock_after [OF ord ids nonneg enough])
  have stock: "stock_of (products (snd (update_stock srt name qty db))) name =
      stock_of (products db) name - qty"
    unfolding tbl by (rule stock_of_after [OF ord ids nonneg enough])
  have each: "\<forall>k < length (stock_writes srt (products db) name qty).
      stock_writes srt (products db) name qty ! k =
        (row_id (fetch_batches srt (products db) name ! k),
         min (qty - sum_list (map snd (take k (stock_writes srt (products db) name qty))))
           (quantity (fetch_batches srt (products db) name ! k)))"
    using stock_writes_nth [of _ srt "products db" name qty] by blast
  have fifo: "\<forall>A \<in> set (products db). \<forall>B \<in> set (products db).
      row_id A \<in> fst ` set (stock_writes srt (products db) name qty) \<longrightarrow>
      row_id B \<in> fst ` set (stock_writes srt (products db) name qty) \<longrightarrow>
      purchase_date A < purchase_date B \<longrightarrow>
      row_quantity (before_write (stock_writes srt (products db) name qty) (row_id B)
        (products db)) (row_id A) = Some 0"
    using oldest_first [OF ord ids] by blast
  show ?thesis
    using ok tbl avail stock each fifo by blast
qed

theorem update_stock_fifo_witness:
  "order_by_purchase_date (sort_key purchase_date)
      (matching_batches (products (widget_shop two_batches)) (str ''Widget''))
   \<and> distinct (map row_id (products (widget_shop two_batches)))
   \<and> (0::int) \<le> 7
   \<and> 7 \<le> available_stock (products (widget_shop two_batches)) (str ''Widget'')
   \<and> fst (update_stock (sort_key purchase_date) (str ''Widget'') 7 (widget_shop two_batches)) = Inr ()
   \<and> stock_of (products (snd (update_stock (sort_key purchase_date) (str ''Widget'') 7
        (widget_shop two_batches)))) (str ''Widget'') = 3
   \<and> stock_writes (sort_key purchase_date) (products (widget_shop two_batches)) (str ''Widget'') 7 =
        [(1, 5), (2, 2)]
   \<and> row_quantity (before_write [(1, 5), (2, 2)] 2 (products (widget_shop two_batches))) 1 = Some 0"
proof -
  let ?db = "widget_shop two_batches"
  let ?A = "widget_batch 1 5 100 ''2024-01-01''"
  let ?B = "widget_batch 2 5 110 ''2024-01-10''"
  have h1: "order_by_purchase_date (sort_key purchase_date)
      (matching_batches (products ?db) (str ''Widget''))"
    by code_simp
  have h2: "distinct (map row_id (products ?db))"
    by code_simp
  have h3: "(0::int) \<le> 7"
    by simp
  have h4: "7 \<le> available_stock (products ?db) (str ''Widget'')"
    by code_simp
  note c = update_stock_fifo [OF h1 h2 h3 h4]
  have ws: "stock_writes (sort_key purchase_date) (products ?db) (str ''Widget'') 7 = [(1, 5), (2, 2)]"
    by code_simp
  have s: "stock_of (products ?db) (str ''Widget'') = 10"
    by code_simp
  have A: "?A \<in> set (products ?db)" and B: "?B \<in> set (products ?db)"
    by (simp_all add: widget_shop_def two_batches_def)
  have idA: "row_id ?A = 1" and idB: "row_id ?B = 2"
    by (simp_all add: widget_batch_def)
  have older: "purchase_date ?A < purchase_date ?B"
    by code_simp
  have tA: "row_id ?A \<in> fst ` set (stock_writes (sort_key purchase_date) (products ?db) (str ''Widget'') 7)"
    unfolding ws idA by simp
  have tB: "row_id ?B \<in> fst ` set (stock_writes (sort_key purchase_date) (products ?db) (str ''Widget'') 7)"
    unfolding ws idB by simp
  from c have fifo: "\<forall>A \<in> set (products ?db). \<forall>B \<in> set (products ?db).
      row_id A \<in> fst ` set (stock_writes (sort_key purchase_date) (products ?db) (str ''Widget'') 7) \<longrightarrow>
      row_id B \<in> fst ` set (stock_writes (sort_key purchase_date) (products ?db) (str ''Widget'') 7) \<longrightarrow>
      purchase_date A < purchase_date B \<longrightarrow>
      row_quantity (before_write (stock_writes (sort_key purchase_date) (products ?db) (str ''Widget'') 7)
        (row_id B) (products ?db)) (row_id A) = Some 0"
    by (elim conjE)
  from fifo [rule_format, OF A B tA tB older]
  have q: "row_quantity (before_write [(1, 5), (2, 2)] 2 (products ?db)) 1 = Some 0"
    unfolding ws idA idB .
  from c have ok: "fst (update_stock (sort_key purchase_date) (str ''Widget'') 7 ?db) = Inr ()"
    by (elim conjE)
  from c have st: "stock_of (products (snd (update_stock (sort_key purchase_date) (str ''Widget'') 7 ?db)))
      (str ''Widget'') = stock_of (products ?db) (str ''Widget'') - 7"
    by (elim conjE)
  have st3: "stock_of (products (snd (update_stock (sort_key purchase_date) (str ''Widget'') 7 ?db)))
      (str ''Widget'') = 3"
    unfolding st s by simp
  show ?thesis
    using h1 h2 h3 h4 ok st3 ws q by (intro conjI)
qed

text \<open>
  C1 as stated fails for a negative request: the sum is at least \<open>-3\<close>, the call
  succeeds, and the sum stays at 10 where the claim lowers it by \<open>-3\<close>.
\<close>

theorem update_stock_negative_counterexample:
  "order_by_purchase_date (sort_key purchase_date)
      (matching_batches (products (widget_shop two_batches)) (str ''Widget''))
   \<and> - 3 \<le> stock_of (products (widget_shop two_batches)) (str ''Widget'')
   \<and> fst (update_stock (sort_key purchase_date) (str ''Widget'') (- 3) (widget_shop two_batches)) = Inr ()
   \<and> stock_of (products (snd (update_stock (sort_key purchase_date) (str ''Widget'') (- 3)
        (widget_shop two_batches)))) (str ''Widget'')
      \<noteq> stock_of (products (widget_shop two_batches)) (str ''Widget'') - (- 3)"
  by code_simp

lemma next_rowid_fresh: "next_rowid ids \<notin> set ids"
proof (cases "ids = []")
  case True
  then show ?thesis by simp
next
  case False
  have "\<forall>i \<in> set ids. i \<le> Max (set ids)" by simp
  then have "\<forall>i \<in> set ids. i < next_rowid ids"
    using False by (auto simp: next_rowid_def intro: le_less_trans)
  then show ?thesis by blast
qed

lemma add_product_ids_distinct:
  assumes "distinct (map row_id (products db))"
    and "add_product py company brand_name name qty price cgst_pct sgst_pct cess_pct date invoice db
      = Inr db'"
  shows "distinct (map row_id (products db'))"
  using assms next_rowid_fresh [of "map row_id (products db)"]
  by (auto simp: add_product_def split: if_splits)

lemma update_stock_ids: 
  assumes "order_by_purchase_date srt (matching_batches (products db) name)"
  shows "map row_id (products (snd (update_stock srt name qty db))) = map row_id (products db)"
  by (simp add: update_stock_products [OF assms] run_updates_map comp_def)

text \<open>
  C8, as the code has it. \<open>add_product\<close> sets \<open>remaining_quantity\<close> and
  \<open>original_quantity\<close> to the given quantity, so the new batch has the invariant exactly
  when that quantity is not negative. A call of \<open>update_stock\<close>, failed or not, keeps
  the rows, their ids and their \<open>original_quantity\<close>, raises no \<open>remaining_quantity\<close>,
  makes none negative that was not, and so keeps the invariant of every batch that has
  it.
\<close>

theorem batch_invariant_kept:
  assumes ord: "order_by_purchase_date srt (matching_batches (products db) name)"
    and ids: "distinct (map row_id (products db))"
  shows "(\<forall>db'. add_product py company brand_name name' qty' price cgst_pct sgst_pct cess_pct date invoice db
              = Inr db' \<longrightarrow>
            (\<exists>row. products db' = products db @ [row]
               \<and> original_quantity row = qty' \<and> quantity row = qty'
               \<and> batch_invariant row = (0 \<le> qty')))
    \<and> length (products (snd (update_stock srt name qty db))) = length (products db)
    \<and> (\<forall>k < length (products db).
          row_id (products (snd (update_stock srt name qty db)) ! k) = row_id (products db ! k)
          \<and> original_quantity (products (snd (update_stock srt name qty db)) ! k) =
              original_quantity (products db ! k)
          \<and> quantity (products (snd (update_stock srt name qty db)) ! k) \<le> quantity (products db ! k)
          \<and> (0 \<le> quantity (products db ! k) \<longrightarrow>
              0 \<le> quantity (products (snd (update_stock srt name qty db)) ! k))
          \<and> (batch_invariant (products db ! k) \<longrightarrow>
              batch_invariant (products (snd (update_stock srt name qty db)) ! k)))"
proof -
  have created: "\<forall>db'. add_product py company brand_name name' qty' price cgst_pct sgst_pct cess_pct date
        invoice db = Inr db' \<longrightarrow>
      (\<exists>row. products db' = products db @ [row]
         \<and> original_quantity row = qty' \<and> quantity row = qty'
         \<and> batch_invariant row = (0 \<le> qty'))"
    by (auto simp: add_product_def batch_invariant_def split: if_splits)
  have len: "length (products (snd (update_stock srt name qty db))) = length (products db)"
    using update_stock_ids [OF ord, of qty] by (metis length_map)
  have rows: "\<forall>k < length (products db).
      row_id (products (snd (update_stock srt name qty db)) ! k) = row_id (products db ! k)
      \<and> original_quantity (products (snd (update_stock srt name qty db)) ! k) =
          original_quantity (products db ! k)
      \<and> quantity (products (snd (update_stock srt name qty db)) ! k) \<le> quantity (products db ! k)
      \<and> (0 \<le> quantity (products db ! k) \<longrightarrow>
          0 \<le> quantity (products (snd (update_stock srt name qty db)) ! k))
      \<and> (batch_invariant (products db ! k) \<longrightarrow>
          batch_invariant (products (snd (update_stock srt name qty db)) ! k))"
  proof (intro allI impI)
    fix k assume k: "k < length (products db)"
    from update_stock_rows [OF ord ids k, of qty]
    show "row_id (products (snd (update_stock srt name qty db)) ! k) = row_id (products db ! k)
      \<and> original_quantity (products (snd (update_stock srt name qty db)) ! k) =
          original_quantity (products db ! k)
      \<and> quantity (products (snd (update_stock srt name qty db)) ! k) \<le> quantity (products db ! k)
      \<and> (0 \<le> quantity (products db ! k) \<longrightarrow>
          0 \<le> quantity (products (snd (update_stock srt name qty db)) ! k))
      \<and> (batch_invariant (products db ! k) \<longrightarrow>
          batch_invariant (products (snd (update_stock srt name qty db)) ! k))"
      by (auto simp: batch_invariant_def)
  qed
  show ?thesis
    using created len rows by blast
qed

theorem batch_invariant_kept_witness:
  "order_by_purchase_date (sort_key purchase_date)
      (matching_batches (products (widget_shop two_batches)) (str ''Widget''))
   \<and> distinct (map row_id (products (widget_shop two_batches)))
   \<and> batch_invariant (products (widget_shop two_batches) ! 1)
   \<and> batch_invariant (products (snd (update_stock (sort_key purchase_date) (str ''Widget'') 7
        (widget_shop two_batches))) ! 1)"
proof -
  let ?db = "widget_shop two_batches"
  have h1: "order_by_purchase_date (sort_key purchase_date)
      (matching_batches (products ?db) (str ''Widget''))"
    by code_simp
  have h2: "distinct (map row_id (products ?db))"
    by code_simp
  have k: "1 < length (products ?db)"
    by code_simp
  have inv: "batch_invariant (products ?db ! 1)"
    by code_simp
  from batch_invariant_kept [OF h1 h2, where qty = 7 and py = ascii_methods and company = None
      and brand_name = "[]" and name' = "[]" and qty' = 0 and price = "Finite 0" and cgst_pct = "Finite 0"
      and sgst_pct = "Finite 0" and cess_pct = "Finite 0" and date = "[]" and invoice = None]
  have "\<forall>k < length (products ?db).
      batch_invariant (products ?db ! k) \<longrightarrow>
      batch_invariant (products (snd (update_stock (sort_key purchase_date) (str ''Widget'') 7 ?db)) ! k)"
    by blast
  then have "batch_invariant (products (snd (update_stock (sort_key purchase_date) (str ''Widget'') 7 ?db)) ! 1)"
    using k inv by blast
  then show ?thesis
    using h1 h2 inv by (intro conjI)
qed

text \<open>
  C8 as stated fails: \<open>add_product\<close> with the quantity \<open>-5\<close> creates a batch whose
  \<open>remaining_quantity\<close> is below 0.
\<close>

theorem batch_invariant_negative_counterexample:
  "add_product ascii_methods None (str ''acme'') (str ''widget'') (- 5) (Finite 100) (Finite 9)
      (Finite 9) (Finite 2) (str ''2024-02-01'') None (widget_shop two_batches) =
     Inr (widget_shop (two_batches @ [widget_batch 3 (- 5) 100 ''2024-02-01'']))
   \<and> \<not> batch_invariant (widget_batch 3 (- 5) 100 ''2024-02-01'')"
  by code_simp

section \<open>Properties of billing\<close>





lemma nocase_eq_trans: "nocase_eq a b \<Longrightarrow> nocase_eq a c \<Longrightarrow> nocase_eq b c"
  by (simp add: nocase_eq_def)

lemma sum_stock_writes_max:
  assumes "order_by_purchase_date srt (matching_batches tbl name)"
    and "qty \<le> available_stock tbl name"
  shows "sum_list (map snd (stock_writes srt tbl name qty)) = max 0 qty"
proof (cases "0 \<le> qty")
  case True
  then show ?thesis using sum_stock_writes [OF assms(1) True assms(2)] by simp
next
  case False
  then have "stock_writes srt tbl name qty = []"
    unfolding stock_writes_def by (intro deduct_loop_nonpositive) simp
  then show ?thesis using False by simp
qed

lemma stock_of_after_any:
  assumes ord: "order_by_purchase_date srt (matching_batches tbl name)"
    and ids: "distinct (map row_id tbl)"
    and enough: "qty \<le> available_stock tbl name"
  shows "stock_of (run_updates (stock_writes srt tbl name qty) tbl) n =
    stock_of tbl n - (if nocase_eq name n then max 0 qty else 0)"
proof -
  let ?ws = "stock_writes srt tbl name qty"
  let ?h = "\<lambda>p. if nocase_eq (product_name p) n then quantity p else 0"
  let ?t = "\<lambda>p. if nocase_eq name n then taken ?ws (row_id p) else 0"
  have "stock_of (run_updates ?ws tbl) n =
      (\<Sum>p\<leftarrow>tbl. ?h (p\<lparr>quantity := quantity p - taken ?ws (row_id p)\<rparr>))"
    by (simp add: stock_of_sum run_updates_map comp_def)
  also have "\<dots> = (\<Sum>p\<leftarrow>tbl. ?h p - ?t p)"
  proof (rule sum_list_cong_set)
    fix p assume p: "p \<in> set tbl"
    show "?h (p\<lparr>quantity := quantity p - taken ?ws (row_id p)\<rparr>) = ?h p - ?t p"
    proof (cases "nocase_eq (product_name p) name")
      case True
      then have "nocase_eq (product_name p) n = nocase_eq name n"
        by (simp add: nocase_eq_def)
      then show ?thesis by simp
    next
      case False
      then have "taken ?ws (row_id p) = 0"
        using taken_row_bounds [OF ord ids p, of qty] by simp
      then show ?thesis by simp
    qed
  qed
  also have "\<dots> = (\<Sum>p\<leftarrow>tbl. ?h p) - (\<Sum>p\<leftarrow>tbl. ?t p)"
    by (simp add: sum_list_subtractf)
  also have "(\<Sum>p\<leftarrow>tbl. ?t p) = (if nocase_eq name n then max 0 qty else 0)"
    using sum_taken_table [OF ids stock_writes_ids [OF ord], of qty] sum_stock_writes_max [OF ord enough]
    by simp
  finally show ?thesis by (simp add: stock_of_sum)
qed

lemma sold_Cons:
  "sold (item # items) n =
    (if nocase_eq (item_product_name item) n then max 0 (item_quantity item) else 0) + sold items n"
  by (simp add: sold_def)

lemma process_items_append:
  assumes "process_items srt invoice_number earlier db = (None, db')"
  shows "process_items srt invoice_number (earlier @ rest) db = process_items srt invoice_number rest db'"
  using assms
proof (induction earlier arbitrary: db)
  case Nil
  then show ?case by simp
next
  case (Cons item earlier)
  then show ?case
    by (auto simp: Let_def split: if_splits sum.splits prod.splits)
qed

lemma process_items_ok:
  assumes contract: "\<forall>rows. order_by_purchase_date srt rows"
    and "distinct (map row_id (products db))"
    and "process_items srt invoice_number items db = (None, db')"
  shows "billing db' = billing db \<and> settings db' = settings db \<and> companies db' = companies db
    \<and> map row_id (products db') = map row_id (products db)
    \<and> length (bill_items db') = length (bill_items db) + length items
    \<and> (\<forall>n. stock_of (products db') n = stock_of (products db) n - sold items n)"
  using assms(2,3)
proof (induction items arbitrary: db)
  case Nil
  then show ?case by (simp add: sold_def)
next
  case (Cons item items)
  let ?name = "item_product_name item" and ?qty = "item_quantity item"
  have ord: "order_by_purchase_date srt (matching_batches (products db) ?name)"
    using contract by blast
  have enough: "?qty \<le> available_stock (products db) ?name"
    using Cons.prems(2) total_available_eq [OF ord]
    by (auto simp: Let_def split: if_splits)
  obtain db1 where db1: "add_bill_item invoice_number ?name ?qty (item_unit_price item) db = Inr db1"
    using Cons.prems(2) total_available_eq [OF ord] enough
    by (auto simp: Let_def split: if_splits sum.splits)
  have db1': "products db1 = products db" "billing db1 = billing db" "settings db1 = settings db"
    "companies db1 = companies db" "length (bill_items db1) = Suc (length (bill_items db))"
    using db1 by (auto simp: add_bill_item_def split: if_splits)
  let ?db2 = "db1\<lparr>products := run_updates (stock_writes srt (products db) ?name ?qty) (products db)\<rparr>"
  have run: "update_stock srt ?name ?qty db1 = (Inr (), ?db2)"
    using update_stock_ok [of srt db1 ?name ?qty] ord enough db1'(1) by simp
  have rest: "process_items srt invoice_number items ?db2 = (None, db')"
    using Cons.prems(2) total_available_eq [OF ord] enough db1 run
    by (simp add: Let_def)
  have ids2: "distinct (map row_id (products ?db2))"
    using Cons.prems(1) by (simp add: run_updates_map comp_def)
  note ih = Cons.IH [OF ids2 rest]
  have stock2: "\<forall>n. stock_of (products ?db2) n =
      stock_of (products db) n - (if nocase_eq ?name n then max 0 ?qty else 0)"
    using stock_of_after_any [OF ord Cons.prems(1) enough] by simp
  show ?case
    using ih db1' stock2 by (simp add: sold_Cons run_updates_map comp_def)
qed

lemma get_invoice_number_tables:
  "products (snd (get_invoice_number now db)) = products db
   \<and> billing (snd (get_invoice_number now db)) = billing db
   \<and> bill_items (snd (get_invoice_number now db)) = bill_items db
   \<and> companies (snd (get_invoice_number now db)) = companies db"
  by (simp add: get_invoice_number_def Let_def split: option.splits)

text \<open>
  C3, as the code has it. Every step of \<open>generate_bill\<close> commits on its own and nothing
  is undone: when the stock check of a cart line fails after the lines \<open>earlier\<close> were
  allocated, the call reports the failure and leaves the database as the earlier lines
  left it. The Bill header is stored, the counter holds the invoice number, there is a
  bill item for each earlier line, and for every product the sum of
  \<open>remaining_quantity\<close> is lower by what the earlier lines took. The failing line and
  the lines after it change nothing.
\<close>

theorem generate_bill_keeps_partial_work:
  assumes contract: "\<forall>rows. order_by_purchase_date srt rows"
    and ids: "distinct (map row_id (products db))"
    and customer: "customer \<noteq> []"
    and number: "get_invoice_number now db = (invoice_number, db1)"
    and amount: "calculate_total (earlier @ item # later) = Inr amount"
    and header: "create_bill invoice_number customer amount date db1 = Inr db2"
    and allocated: "process_items srt invoice_number earlier db2 = (None, db3)"
    and short: "available_stock (products db3) (item_product_name item) < item_quantity item"
  shows "generate_bill srt now date customer (earlier @ item # later) db =
      (Failed (InsufficientStockFor (item_product_name item)), db3)
    \<and> billing db3 = billing db @
        [\<lparr>bill_number = invoice_number, customer_name = customer,
          total_amount = sql_real amount, bill_date = date\<rparr>]
    \<and> map_of (settings db3) (year now) = Some invoice_number
    \<and> length (bill_items db3) = length (bill_items db) + length earlier
    \<and> (\<forall>n. stock_of (products db3) n = stock_of (products db) n - sold earlier n)"
proof -
  have t1: "products db1 = products db" "billing db1 = billing db" "bill_items db1 = bill_items db"
    using get_invoice_number_tables [of now db] number by simp_all
  have s1: "map_of (settings db1) (year now) = Some invoice_number"
    using get_invoice_number_stored [of now db] number by simp
  have db2: "db2 = db1\<lparr>billing := billing db1 @
      [\<lparr>bill_number = invoice_number, customer_name = customer,
        total_amount = sql_real amount, bill_date = date\<rparr>]\<rparr>"
    using header by (auto simp: create_bill_def split: if_splits)
  have ids2: "distinct (map row_id (products db2))"
    using ids t1 db2 by simp
  note ok = process_items_ok [OF contract ids2 allocated]
  have ord: "order_by_purchase_date srt (matching_batches (products db3) (item_product_name item))"
    using contract by blast
  have fail: "process_items srt invoice_number (item # later) db3 =
      (Some (InsufficientStockFor (item_product_name item)), db3)"
    using short total_available_eq [OF ord] by (simp add: Let_def)
  have loop: "process_items srt invoice_number (earlier @ item # later) db2 =
      (Some (InsufficientStockFor (item_product_name item)), db3)"
    using process_items_append [OF allocated, of "item # later"] fail by simp
  have result: "generate_bill srt now date customer (earlier @ item # later) db =
      (Failed (InsufficientStockFor (item_product_name item)), db3)"
    using customer number amount header loop by (simp add: generate_bill_def)
  show ?thesis
    using result ok t1 s1 db2 by simp
qed

theorem generate_bill_keeps_partial_work_witness:
  "(\<forall>rows. order_by_purchase_date (sort_key purchase_date) rows)
   \<and> generate_bill (sort_key purchase_date) march_fifth (str ''2024-03-05 10:00:00'') (str ''Asha'')
        ([widget_line 3] @ widget_line 3 # []) one_batch_shop =
      (Failed (InsufficientStockFor (str ''Widget'')),
       \<lparr>companies = [], products = [(widget_batch 1 5 100 ''2024-01-01'')\<lparr>quantity := 2\<rparr>],
        billing = [\<lparr>bill_number = 1, customer_name = (str ''Asha''), total_amount = Some (Finite 708),
          bill_date = (str ''2024-03-05 10:00:00'')\<rparr>],
        bill_items = [\<lparr>bi_id = 1, bi_bill_number = 1, bi_product_name = (str ''Widget''), bi_quantity = 3,
          bi_unit_price = Some (Finite 100)\<rparr>],
        settings = [(2024, 1)]\<rparr>)"
proof -
  let ?db1 = "\<lparr>companies = [], products = [widget_batch 1 5 100 ''2024-01-01''], billing = [],
      bill_items = [], settings = [(2024, 1)]\<rparr>"
  let ?bill = "\<lparr>bill_number = 1, customer_name = (str ''Asha''), total_amount = Some (Finite 708),
      bill_date = (str ''2024-03-05 10:00:00'')\<rparr>"
  let ?db2 = "?db1\<lparr>billing := [?bill]\<rparr>"
  let ?db3 = "\<lparr>companies = [], products = [(widget_batch 1 5 100 ''2024-01-01'')\<lparr>quantity := 2\<rparr>],
      billing = [?bill],
      bill_items = [\<lparr>bi_id = 1, bi_bill_number = 1, bi_product_name = (str ''Widget''), bi_quantity = 3,
        bi_unit_price = Some (Finite 100)\<rparr>],
      settings = [(2024, 1)]\<rparr>"
  have h1: "\<forall>rows. order_by_purchase_date (sort_key purchase_date) rows"
    by (simp add: order_by_sort_key)
  have h2: "distinct (map row_id (products one_batch_shop))"
    by code_simp
  have h3: "(str ''Asha'') \<noteq> []"
    by (simp add: str_def)
  have h4: "get_invoice_number march_fifth one_batch_shop = (1, ?db1)"
    by code_simp
  have h5a: "calculate_total ([widget_line 3] @ widget_line 3 # []) = Inr (Finite 708)"
    by code_simp
  have h5: "create_bill 1 (str ''Asha'') (Finite 708) (str ''2024-03-05 10:00:00'') ?db1 = Inr ?db2"
    by code_simp
  have h6: "process_items (sort_key purchase_date) 1 [widget_line 3] ?db2 = (None, ?db3)"
    by code_simp
  have h7: "available_stock (products ?db3) (item_product_name (widget_line 3))
      < item_quantity (widget_line 3)"
    by code_simp
  have name: "item_product_name (widget_line 3) = (str ''Widget'')"
    by (simp add: widget_line_def)
  from generate_bill_keeps_partial_work [OF h1 h2 h3 h4 h5a h5 h6 h7]
  have "generate_bill (sort_key purchase_date) march_fifth (str ''2024-03-05 10:00:00'') (str ''Asha'')
        ([widget_line 3] @ widget_line 3 # []) one_batch_shop =
      (Failed (InsufficientStockFor (str ''Widget'')), ?db3)"
    unfolding name by (elim conjE)
  then show ?thesis
    using h1 by (intro conjI)
qed

text \<open>
  C3 as stated fails: two lines of three widgets against a stock of five. The second
  line fails; the stock is 2, not 5, and the bill with the number 1 is stored.
\<close>

theorem generate_bill_not_atomic_counterexample:
  "fst (generate_bill (sort_key purchase_date) march_fifth (str ''2024-03-05 10:00:00'') (str ''Asha'')
        [widget_line 3, widget_line 3] one_batch_shop) = Failed (InsufficientStockFor (str ''Widget''))
   \<and> stock_of (products one_batch_shop) (str ''Widget'') = 5
   \<and> stock_of (products (snd (generate_bill (sort_key purchase_date) march_fifth
        (str ''2024-03-05 10:00:00'') (str ''Asha'') [widget_line 3, widget_line 3] one_batch_shop))) (str ''Widget'') = 2
   \<and> map bill_number (billing (snd (generate_bill (sort_key purchase_date) march_fifth
        (str ''2024-03-05 10:00:00'') (str ''Asha'') [widget_line 3, widget_line 3] one_batch_shop))) = [1]"
  by code_simp

end
